theory Spec2Isabelle
  imports Complex_Main "HOL-Library.Multiset"
begin

section \<open>Data model of wordle\_solver.py\<close>

text \<open>
  A word is vectorised by \<open>get_unicode\<close> into a one-dimensional numpy array of code points
  (dtype int32). The code points are only compared and sorted, never added, so they are
  modelled as \<open>int\<close>. A colour string is vectorised the same way.
\<close>

definition G_UNICODE :: int where "G_UNICODE = 103"
definition Y_UNICODE :: int where "Y_UNICODE = 121"
definition B_UNICODE :: int where "B_UNICODE = 98"

definition get_unicode :: "string \<Rightarrow> int list" where
  "get_unicode word = map (\<lambda>char. int (of_char char)) word"

text \<open>
  \<open>POSSIBLE_COLORS = np.array(list(itertools.product([G, Y, B], repeat=5)))\<close>:
  the leftmost position varies slowest, as in \<open>product_lists\<close>.
\<close>

definition POSSIBLE_COLORS :: "int list list" where
  "POSSIBLE_COLORS = product_lists (replicate 5 [G_UNICODE, Y_UNICODE, B_UNICODE])"

text \<open>
  The word list is a two-dimensional numpy array of shape \<open>(len(rows), ncols)\<close>. The number of
  columns is kept beside the rows because an array with no row still has its width.
\<close>

record ndarray =
  ncols :: nat
  rows :: "int list list"

definition wf_ndarray :: "ndarray \<Rightarrow> bool" where
  "wf_ndarray a = list_all (\<lambda>r. length r = ncols a) (rows a)"

definition words_of :: "string list \<Rightarrow> ndarray" where
  "words_of ls = \<lparr>ncols = 5, rows = map get_unicode ls\<rparr>"

datatype error = IndexError | ZeroDivisionError

section \<open>The numpy operations used by the solver\<close>

text \<open>\<open>a[mask]\<close> for a boolean mask as long as \<open>a\<close>: the entries where the mask is true.\<close>

definition mask_select :: "bool list \<Rightarrow> 'a list \<Rightarrow> 'a list" where
  "mask_select msk xs = map snd (filter fst (zip msk xs))"

text \<open>\<open>np.unique\<close>: the distinct entries, ascending.\<close>

definition np_unique :: "int list \<Rightarrow> int list" where
  "np_unique xs = sort (remdups xs)"

text \<open>\<open>(xs == u).sum()\<close>: how many entries of \<open>xs\<close> equal \<open>u\<close>.\<close>

definition eq_count :: "int list \<Rightarrow> int \<Rightarrow> nat" where
  "eq_count xs u = length (filter (\<lambda>x. x = u) xs)"

section \<open>get\_poss\_words\<close>

text \<open>The four successive maskings of the word array, each on the rows the previous one kept.\<close>

definition green_letter_mask :: "int list \<Rightarrow> bool list" where
  "green_letter_mask colors = map (\<lambda>c. c = G_UNICODE) colors"

definition not_green_mask :: "int list \<Rightarrow> bool list" where
  "not_green_mask colors = map Not (green_letter_mask colors)"

definition green_step :: "int list \<Rightarrow> int list \<Rightarrow> int list list \<Rightarrow> int list list" where
  "green_step guess colors ws =
     (let green_word_mask =
            map (\<lambda>w. list_all2 (=) (mask_select (green_letter_mask colors) w)
                                     (mask_select (green_letter_mask colors) guess)) ws
      in mask_select green_word_mask ws)"

definition not_at_index_step :: "int list \<Rightarrow> int list \<Rightarrow> int list list \<Rightarrow> int list list" where
  "not_at_index_step guess colors ws =
     (let letter_not_at_index_mask =
            map (\<lambda>w. list_all2 (\<noteq>) (mask_select (not_green_mask colors) w)
                                      (mask_select (not_green_mask colors) guess)) ws
      in mask_select letter_not_at_index_mask ws)"

definition yellow_step :: "int list \<Rightarrow> int list \<Rightarrow> int list list \<Rightarrow> int list list" where
  "yellow_step guess colors ws =
     (let yellow_letters = mask_select (map (\<lambda>c. c = Y_UNICODE) colors) guess;
          unique_yellow_letters = np_unique yellow_letters;
          yellow_letter_count_limits = map (eq_count yellow_letters) unique_yellow_letters;
          yellow_letter_counts =
            map (\<lambda>w. map (eq_count (mask_select (not_green_mask colors) w)) unique_yellow_letters) ws
      in mask_select (map (\<lambda>counts. list_all2 (\<ge>) counts yellow_letter_count_limits)
                          yellow_letter_counts) ws)"

definition black_step :: "int list \<Rightarrow> int list \<Rightarrow> int list list \<Rightarrow> int list list" where
  "black_step guess colors ws =
     (let yellow_letters = mask_select (map (\<lambda>c. c = Y_UNICODE) colors) guess;
          black_letters = mask_select (map (\<lambda>c. c = B_UNICODE) colors) guess;
          unique_black_letters = np_unique black_letters;
          yellow_black_letter_count = map (eq_count yellow_letters) unique_black_letters;
          black_letter_counts =
            map (\<lambda>w. map (eq_count (mask_select (not_green_mask colors) w)) unique_black_letters) ws
      in mask_select (map (\<lambda>counts. list_all2 (\<le>) counts yellow_black_letter_count)
                          black_letter_counts) ws)"

definition get_poss_words_rows :: "int list \<Rightarrow> int list \<Rightarrow> int list list \<Rightarrow> int list list" where
  "get_poss_words_rows guess colors ws =
     black_step guess colors (yellow_step guess colors
       (not_at_index_step guess colors (green_step guess colors ws)))"

text \<open>
  Boolean-mask indexing raises IndexError when the mask is not as long as the indexed
  dimension: \<open>words[:, green_letter_mask]\<close> needs \<open>len(colors)\<close> to be the number of columns,
  \<open>guess[green_letter_mask]\<close> needs it to be \<open>len(guess)\<close>. Nothing else in the function raises.
\<close>

definition get_poss_words :: "int list \<Rightarrow> int list \<Rightarrow> ndarray \<Rightarrow> error + ndarray" where
  "get_poss_words guess colors words =
     (if length colors \<noteq> ncols words then Inl IndexError
      else if length colors \<noteq> length guess then Inl IndexError
      else Inr (words\<lparr>rows := get_poss_words_rows guess colors (rows words)\<rparr>))"

section \<open>calc\_guess\_entropy\<close>

text \<open>
  The score is a Python float. Its arithmetic is modelled exactly, in \<open>rat\<close>: rounding is
  not modelled. \<open>n_poss_words / words.shape[0]\<close> divides two Python ints and raises
  ZeroDivisionError when the word array has no row.
\<close>

fun entropy_loop :: "int list \<Rightarrow> ndarray \<Rightarrow> int list list \<Rightarrow> rat \<Rightarrow> error + rat" where
  "entropy_loop guess words [] pred_remain_words = Inr pred_remain_words"
| "entropy_loop guess words (colors # rest) pred_remain_words =
     (case get_poss_words guess colors words of
        Inl e \<Rightarrow> Inl e
      | Inr poss \<Rightarrow>
          (let n_poss_words = length (rows poss) in
           if length (rows words) = 0 then Inl ZeroDivisionError
           else entropy_loop guess words rest
                  (pred_remain_words
                   + (of_nat n_poss_words / of_nat (length (rows words))) * of_nat n_poss_words)))"

definition calc_guess_entropy :: "int list \<Rightarrow> ndarray \<Rightarrow> error + rat" where
  "calc_guess_entropy guess words = entropy_loop guess words POSSIBLE_COLORS 0"

section \<open>rank\_words\<close>

text \<open>
  Each guess is scored by a worker of the pool; \<open>i.get()\<close> returns the worker's result or
  raises what the worker raised, and the results are collected in the order of the guesses.
\<close>

fun collect_scores :: "ndarray \<Rightarrow> int list list \<Rightarrow> error + rat list" where
  "collect_scores words [] = Inr []"
| "collect_scores words (guess # rest) =
     (case calc_guess_entropy guess words of
        Inl e \<Rightarrow> Inl e
      | Inr s \<Rightarrow>
          (case collect_scores words rest of
             Inl e \<Rightarrow> Inl e
           | Inr ss \<Rightarrow> Inr (s # ss)))"

text \<open>\<open>a[inds]\<close> for an array of indices: IndexError on an index out of range.\<close>

definition take_indices :: "nat list \<Rightarrow> 'a list \<Rightarrow> error + 'a list" where
  "take_indices inds xs =
     (if list_all (\<lambda>i. i < length xs) inds then Inr (map (\<lambda>i. xs ! i) inds)
      else Inl IndexError)"

text \<open>
  \<open>np.argsort\<close> is numpy's, not the solver's: it is a parameter of the model. It sees the
  scores only.
\<close>

definition rank_words ::
  "(rat list \<Rightarrow> nat list) \<Rightarrow> ndarray \<Rightarrow> error + (ndarray \<times> rat list)" where
  "rank_words argsort words =
     (case collect_scores words (rows words) of
        Inl e \<Rightarrow> Inl e
      | Inr pred_remain_words \<Rightarrow>
          (let sorted_inds = argsort pred_remain_words in
           case take_indices sorted_inds (rows words) of
             Inl e \<Rightarrow> Inl e
           | Inr ws \<Rightarrow>
               (case take_indices sorted_inds pred_remain_words of
                  Inl e \<Rightarrow> Inl e
                | Inr ps \<Rightarrow> Inr (words\<lparr>rows := ws\<rparr>, ps))))"

text \<open>What numpy documents of \<open>argsort\<close>: the indices that would sort the array.\<close>

definition argsort_ok :: "(rat list \<Rightarrow> nat list) \<Rightarrow> bool" where
  "argsort_ok argsort =
     (\<forall>xs. mset (argsort xs) = mset [0..<length xs] \<and> sorted (map (\<lambda>i. xs ! i) (argsort xs)))"

text \<open>An argsort that keeps equal scores in their input order.\<close>

definition stable_argsort :: "rat list \<Rightarrow> nat list" where
  "stable_argsort xs = sort_key (\<lambda>i. xs ! i) [0..<length xs]"

text \<open>The lexical order of two words, and a ranking whose equal scores are in that order.\<close>

fun lex_le :: "int list \<Rightarrow> int list \<Rightarrow> bool" where
  "lex_le [] ys = True"
| "lex_le (x # xs) [] = False"
| "lex_le (x # xs) (y # ys) = (x < y \<or> (x = y \<and> lex_le xs ys))"

fun ties_lexical :: "(rat \<times> int list) list \<Rightarrow> bool" where
  "ties_lexical ((s, w) # (s', w') # rest) =
     ((s \<noteq> s' \<or> lex_le w w') \<and> ties_lexical ((s', w') # rest))"
| "ties_lexical _ = True"

definition ranked_lexically :: "ndarray \<Rightarrow> error + (ndarray \<times> rat list) \<Rightarrow> bool" where
  "ranked_lexically words out =
     (case out of
        Inl e \<Rightarrow> False
      | Inr (ws, ps) \<Rightarrow>
          mset (rows ws) = mset (rows words) \<and> length ps = length (rows ws)
          \<and> sorted ps \<and> ties_lexical (zip ps (rows ws)))"

section \<open>get\_poss\_words on a store of arrays\<close>

text \<open>
  The caller holds a reference to its word array. In \<open>get_poss_words\<close> every
  \<open>words = words[mask]\<close> builds a new array (indexing by a boolean mask copies) and rebinds
  the local name; no statement of the function writes into an array. A reference held by a
  Python program always points to an object: the branch for a reference without an array is
  there because HOL functions are total, and it leaves the store as it is.
\<close>

record heap =
  cells :: "nat \<Rightarrow> ndarray option"
  next_free :: nat

definition heap_ok :: "heap \<Rightarrow> bool" where
  "heap_ok h = (\<forall>p. next_free h \<le> p \<longrightarrow> cells h p = None)"

definition new_array :: "ndarray \<Rightarrow> heap \<Rightarrow> nat \<times> heap" where
  "new_array a h =
     (next_free h, h\<lparr>cells := (cells h)(next_free h \<mapsto> a), next_free := Suc (next_free h)\<rparr>)"

definition index_rows ::
  "(int list list \<Rightarrow> int list list) \<Rightarrow> nat \<Rightarrow> heap \<Rightarrow> nat \<times> heap" where
  "index_rows step words_ref h =
     (case cells h words_ref of
        None \<Rightarrow> (words_ref, h)
      | Some words \<Rightarrow> new_array (words\<lparr>rows := step (rows words)\<rparr>) h)"

definition get_poss_words_heap ::
  "int list \<Rightarrow> int list \<Rightarrow> nat \<Rightarrow> heap \<Rightarrow> (error + nat) \<times> heap" where
  "get_poss_words_heap guess colors words_ref h =
     (case cells h words_ref of
        None \<Rightarrow> (Inr words_ref, h)
      | Some words \<Rightarrow>
          if length colors \<noteq> ncols words then (Inl IndexError, h)
          else if length colors \<noteq> length guess then (Inl IndexError, h)
          else
            (let (words1, h1) = index_rows (green_step guess colors) words_ref h;
                 (words2, h2) = index_rows (not_at_index_step guess colors) words1 h1;
                 (words3, h3) = index_rows (yellow_step guess colors) words2 h2;
                 (words4, h4) = index_rows (black_step guess colors) words3 h3
             in (Inr words4, h4)))"

text \<open>A store that holds one array, at address 0.\<close>

definition single_array_heap :: "ndarray \<Rightarrow> heap" where
  "single_array_heap a = \<lparr>cells = Map.empty(0 \<mapsto> a), next_free = 1\<rparr>"

section \<open>Notions used to state the properties\<close>

text \<open>
  The test that \<open>get_poss_words\<close> applies to one row: the conjunction of its four maskings.
  \<open>get_poss_words_rows_filter\<close> below proves that the function keeps exactly the rows that
  pass it.
\<close>

definition consistent :: "int list \<Rightarrow> int list \<Rightarrow> int list \<Rightarrow> bool" where
  "consistent guess colors w =
     (list_all2 (=) (mask_select (green_letter_mask colors) w)
                    (mask_select (green_letter_mask colors) guess)
      \<and> list_all2 (\<noteq>) (mask_select (not_green_mask colors) w)
                       (mask_select (not_green_mask colors) guess)
      \<and> list_all (\<lambda>u. eq_count (mask_select (map (\<lambda>c. c = Y_UNICODE) colors) guess) u
                        \<le> eq_count (mask_select (not_green_mask colors) w) u)
           (mask_select (map (\<lambda>c. c = Y_UNICODE) colors) guess)
      \<and> list_all (\<lambda>u. eq_count (mask_select (not_green_mask colors) w) u
                        \<le> eq_count (mask_select (map (\<lambda>c. c = Y_UNICODE) colors) guess) u)
           (mask_select (map (\<lambda>c. c = B_UNICODE) colors) guess))"

text \<open>
  The counts of the specification's rules 3 and 4, by position: the PRESENT positions of the
  guess that hold letter \<open>c\<close>, the positions of a word that are not EXACT and hold \<open>c\<close>,
  and whether \<open>c\<close> is at an ABSENT position of the guess.
\<close>

definition present_count :: "int list \<Rightarrow> int list \<Rightarrow> int \<Rightarrow> nat" where
  "present_count guess colors c =
     length (filter (\<lambda>i. colors ! i = Y_UNICODE \<and> guess ! i = c) [0..<length guess])"

definition non_exact_count :: "int list \<Rightarrow> int list \<Rightarrow> int \<Rightarrow> nat" where
  "non_exact_count colors w c =
     length (filter (\<lambda>i. colors ! i \<noteq> G_UNICODE \<and> w ! i = c) [0..<length w])"

definition absent_letter :: "int list \<Rightarrow> int list \<Rightarrow> int \<Rightarrow> bool" where
  "absent_letter guess colors c =
     list_ex (\<lambda>i. colors ! i = B_UNICODE \<and> guess ! i = c) [0..<length guess]"

text \<open>The number of rows \<open>get_poss_words\<close> returns, \<open>n_f\<close> in the specification.\<close>

definition n_poss_words :: "int list \<Rightarrow> int list \<Rightarrow> ndarray \<Rightarrow> nat" where
  "n_poss_words guess colors words = length (get_poss_words_rows guess colors (rows words))"



section \<open>Boolean masks\<close>

lemma mask_select_Cons [simp]:
  "mask_select (b # bs) (x # xs) = (if b then x # mask_select bs xs else mask_select bs xs)"
  by (simp add: mask_select_def)

lemma mask_select_Nil [simp]: "mask_select [] xs = []" "mask_select bs [] = []"
  by (simp_all add: mask_select_def)

lemma mask_select_map_filter: "mask_select (map P xs) xs = filter P xs"
  by (induction xs) simp_all

lemma set_np_unique [simp]: "set (np_unique xs) = set xs"
  by (simp add: np_unique_def)

lemma list_all2_map_same:
  "list_all2 R (map f us) (map g us) = list_all (\<lambda>u. R (f u) (g u)) us"
  by (induction us) simp_all

lemma mask_select_nth:
  "length msk = length xs \<Longrightarrow>
   mask_select msk xs = map (\<lambda>i. xs ! i) (filter (\<lambda>i. msk ! i) [0..<length xs])"
proof (induction msk xs rule: list_induct2)
  case Nil
  then show ?case by simp
next
  case (Cons b bs x xs)
  have "filter (\<lambda>i. (b # bs) ! i) [0..<Suc (length xs)]
        = (if b then [0] else []) @ map Suc (filter (\<lambda>i. bs ! i) [0..<length xs])"
    by (simp add: upt_conv_Cons map_Suc_upt [symmetric] filter_map comp_def del: upt_Suc)
  then show ?case using Cons by (simp add: comp_def del: upt_Suc)
qed

lemma list_all2_mask_select:
  "length msk = length xs \<Longrightarrow> length msk = length ys \<Longrightarrow>
   list_all2 R (mask_select msk xs) (mask_select msk ys)
     = (\<forall>i < length msk. msk ! i \<longrightarrow> R (xs ! i) (ys ! i))"
  by (auto simp add: mask_select_nth list_all2_map1 list_all2_map2 list_all2_same)

lemma eq_count_mask_select:
  "length msk = length xs \<Longrightarrow>
   eq_count (mask_select msk xs) u
     = length (filter (\<lambda>i. msk ! i \<and> xs ! i = u) [0..<length xs])"
  by (simp add: eq_count_def mask_select_nth filter_map comp_def conj_commute)

lemma filter_upt_cong:
  "(\<And>i. i < n \<Longrightarrow> P i = Q i) \<Longrightarrow> filter P [0..<n] = filter Q [0..<n]"
  by (rule filter_cong) auto

lemma eq_count_mask_select_map:
  assumes "length cs = length xs"
  shows "eq_count (mask_select (map P cs) xs) u
         = length (filter (\<lambda>i. P (cs ! i) \<and> xs ! i = u) [0..<length xs])"
proof -
  have "filter (\<lambda>i. map P cs ! i \<and> xs ! i = u) [0..<length xs]
        = filter (\<lambda>i. P (cs ! i) \<and> xs ! i = u) [0..<length xs]"
    using assms by (intro filter_upt_cong) simp
  then show ?thesis using assms by (simp add: eq_count_mask_select)
qed

lemma set_mask_select:
  "length msk = length xs \<Longrightarrow>
   set (mask_select msk xs) = {xs ! i | i. i < length xs \<and> msk ! i}"
  by (auto simp: mask_select_nth)

section \<open>get\_poss\_words keeps the rows that pass the four tests\<close>

lemma green_step_filter:
  "green_step guess colors ws =
     filter (\<lambda>w. list_all2 (=) (mask_select (green_letter_mask colors) w)
                                (mask_select (green_letter_mask colors) guess)) ws"
  by (simp add: green_step_def mask_select_map_filter)

lemma not_at_index_step_filter:
  "not_at_index_step guess colors ws =
     filter (\<lambda>w. list_all2 (\<noteq>) (mask_select (not_green_mask colors) w)
                                (mask_select (not_green_mask colors) guess)) ws"
  by (simp add: not_at_index_step_def mask_select_map_filter)

lemma yellow_step_filter:
  "yellow_step guess colors ws =
     filter (\<lambda>w. list_all (\<lambda>u. eq_count (mask_select (map (\<lambda>c. c = Y_UNICODE) colors) guess) u
                        \<le> eq_count (mask_select (not_green_mask colors) w) u)
           (mask_select (map (\<lambda>c. c = Y_UNICODE) colors) guess)) ws"
  by (simp add: yellow_step_def Let_def comp_def list_all2_map_same
      mask_select_map_filter[of _ ws, unfolded map_map comp_def] list_all_iff)

lemma black_step_filter:
  "black_step guess colors ws =
     filter (\<lambda>w. list_all (\<lambda>u. eq_count (mask_select (not_green_mask colors) w) u
                        \<le> eq_count (mask_select (map (\<lambda>c. c = Y_UNICODE) colors) guess) u)
           (mask_select (map (\<lambda>c. c = B_UNICODE) colors) guess)) ws"
  by (simp add: black_step_def Let_def comp_def list_all2_map_same
      mask_select_map_filter[of _ ws, unfolded map_map comp_def] list_all_iff)

lemma get_poss_words_rows_filter:
  "get_poss_words_rows guess colors ws = filter (consistent guess colors) ws"
  unfolding get_poss_words_rows_def green_step_filter not_at_index_step_filter
    yellow_step_filter black_step_filter consistent_def filter_filter
  by (rule filter_cong) auto

lemma get_poss_words_Inr:
  "get_poss_words guess colors words = Inr kept \<longleftrightarrow>
     length colors = ncols words \<and> length colors = length guess
     \<and> kept = words\<lparr>rows := filter (consistent guess colors) (rows words)\<rparr>"
  by (auto simp: get_poss_words_def get_poss_words_rows_filter)

text \<open>The four tests, by position.\<close>

lemma consistent_by_position:
  assumes "length colors = length guess" and "length w = length guess"
  shows "consistent guess colors w \<longleftrightarrow>
      (\<forall>i < length guess. colors ! i = G_UNICODE \<longrightarrow> w ! i = guess ! i)
    \<and> (\<forall>i < length guess. colors ! i \<noteq> G_UNICODE \<longrightarrow> w ! i \<noteq> guess ! i)
    \<and> (\<forall>c. 1 \<le> present_count guess colors c \<longrightarrow>
             present_count guess colors c \<le> non_exact_count colors w c)
    \<and> (\<forall>c. absent_letter guess colors c \<longrightarrow>
             non_exact_count colors w c \<le> present_count guess colors c)"
proof -
  have g: "list_all2 (=) (mask_select (green_letter_mask colors) w)
                         (mask_select (green_letter_mask colors) guess)
           \<longleftrightarrow> (\<forall>i < length guess. colors ! i = G_UNICODE \<longrightarrow> w ! i = guess ! i)"
    using assms by (simp add: list_all2_mask_select green_letter_mask_def)
  have n: "list_all2 (\<noteq>) (mask_select (not_green_mask colors) w)
                         (mask_select (not_green_mask colors) guess)
           \<longleftrightarrow> (\<forall>i < length guess. colors ! i \<noteq> G_UNICODE \<longrightarrow> w ! i \<noteq> guess ! i)"
    using assms by (simp add: list_all2_mask_select not_green_mask_def green_letter_mask_def)
  have yc: "eq_count (mask_select (map (\<lambda>c. c = Y_UNICODE) colors) guess) u
            = present_count guess colors u" for u
    using assms by (simp add: eq_count_mask_select_map present_count_def)
  have wc: "eq_count (mask_select (not_green_mask colors) w) u = non_exact_count colors w u" for u
    using assms
    by (simp add: eq_count_mask_select_map non_exact_count_def not_green_mask_def
        green_letter_mask_def comp_def)
  have ys: "u \<in> set (mask_select (map (\<lambda>c. c = Y_UNICODE) colors) guess)
            \<longleftrightarrow> 1 \<le> present_count guess colors u" for u
  proof -
    have "1 \<le> present_count guess colors u
          \<longleftrightarrow> filter (\<lambda>i. colors ! i = Y_UNICODE \<and> guess ! i = u) [0..<length guess] \<noteq> []"
      by (simp add: present_count_def Suc_le_eq)
    also have "\<dots> \<longleftrightarrow> (\<exists>i < length guess. colors ! i = Y_UNICODE \<and> guess ! i = u)"
      by (auto simp: filter_empty_conv)
    finally show ?thesis using assms by (auto simp: set_mask_select)
  qed
  have bs: "u \<in> set (mask_select (map (\<lambda>c. c = B_UNICODE) colors) guess)
            \<longleftrightarrow> absent_letter guess colors u" for u
    using assms by (auto simp: set_mask_select absent_letter_def list_ex_iff)
  show ?thesis
    unfolding consistent_def g n list_all_iff yc wc
    using ys bs by auto
qed

section \<open>The filter's rules\<close>

lemma rows_kept_subset:
  "get_poss_words guess colors words = Inr kept \<Longrightarrow> set (rows kept) \<subseteq> set (rows words)"
  by (auto simp: get_poss_words_Inr)

lemma kept_row_consistent:
  assumes "get_poss_words guess colors words = Inr kept"
  shows "w \<in> set (rows kept) \<longleftrightarrow> w \<in> set (rows words) \<and> consistent guess colors w"
  using assms by (auto simp: get_poss_words_Inr)

lemma wf_row_length:
  "wf_ndarray words \<Longrightarrow> w \<in> set (rows words) \<Longrightarrow> length w = ncols words"
  by (simp add: wf_ndarray_def list_all_iff)

lemma speed_example:
  "get_poss_words (get_unicode ''speed'') (get_unicode ''bbyby'')
     (words_of [''abide'', ''crane'', ''steal'']) = Inr (words_of [''abide''])"
  by code_simp

lemma speed_example_wf: "wf_ndarray (words_of [''abide'', ''crane'', ''steal''])"
  by code_simp

text \<open>
  C2. Every word that \<open>get_poss_words\<close> keeps meets the PRESENT lower bound: for each
  letter at \<open>k \<ge> 1\<close> PRESENT positions of the guess, the word holds that letter at least
  \<open>k\<close> times at the positions that are not EXACT; a word of the input that misses the bound
  for some letter is not kept.
\<close>

theorem present_lower_bound:
  assumes "get_poss_words guess colors words = Inr kept" and "wf_ndarray words"
  shows "(\<forall>w \<in> set (rows kept). \<forall>c. 1 \<le> present_count guess colors c \<longrightarrow>
            present_count guess colors c \<le> non_exact_count colors w c)
       \<and> (\<forall>w \<in> set (rows words).
            (\<exists>c. 1 \<le> present_count guess colors c
                 \<and> non_exact_count colors w c < present_count guess colors c)
            \<longrightarrow> w \<notin> set (rows kept))"
proof -
  have len: "length colors = length guess" "length colors = ncols words"
    using assms(1) by (simp_all add: get_poss_words_Inr)
  have pos: "1 \<le> present_count guess colors c \<longrightarrow>
             present_count guess colors c \<le> non_exact_count colors w c"
    if "w \<in> set (rows words)" "consistent guess colors w" for w c
  proof -
    have "length w = length guess"
      using wf_row_length [OF assms(2) that(1)] len by simp
    with that(2) len(1) show ?thesis by (simp add: consistent_by_position)
  qed
  show ?thesis
    using pos by (fastforce simp: kept_row_consistent [OF assms(1)])
qed

theorem present_lower_bound_witness:
  "get_poss_words (get_unicode ''speed'') (get_unicode ''bbyby'')
     (words_of [''abide'', ''crane'', ''steal'']) = Inr (words_of [''abide''])
   \<and> wf_ndarray (words_of [''abide'', ''crane'', ''steal''])
   \<and> present_count (get_unicode ''speed'') (get_unicode ''bbyby'') 101 = 1
   \<and> 1 \<le> non_exact_count (get_unicode ''bbyby'') (get_unicode ''abide'') 101
   \<and> get_unicode ''crane'' \<notin> set (rows (words_of [''abide'']))"
proof -
  have pc: "present_count (get_unicode ''speed'') (get_unicode ''bbyby'') 101 = 1"
    by code_simp
  have mem: "get_unicode ''abide'' \<in> set (rows (words_of [''abide'']))"
    by (simp add: words_of_def)
  have mem2: "get_unicode ''crane'' \<in> set (rows (words_of [''abide'', ''crane'', ''steal'']))"
    by (simp add: words_of_def)
  have nc: "non_exact_count (get_unicode ''bbyby'') (get_unicode ''crane'') 100 = 0"
    by code_simp
  have pd: "present_count (get_unicode ''speed'') (get_unicode ''bbyby'') 100 = 1"
    by code_simp
  note b = present_lower_bound [OF speed_example speed_example_wf]
  from b mem pc have "1 \<le> non_exact_count (get_unicode ''bbyby'') (get_unicode ''abide'') 101"
    by (metis le_refl)
  moreover from b mem2 nc pd have "get_unicode ''crane'' \<notin> set (rows (words_of [''abide'']))"
    by (metis zero_less_one le_refl)
  ultimately show ?thesis using speed_example speed_example_wf pc by simp
qed

text \<open>
  C3. Every word that \<open>get_poss_words\<close> keeps meets the ABSENT upper bound: for each
  letter at an ABSENT position of the guess, the word holds that letter, at the positions
  that are not EXACT, at most as often as the guess holds it at PRESENT positions; a word of
  the input that exceeds the bound for some letter is not kept.
\<close>

theorem absent_upper_bound:
  assumes "get_poss_words guess colors words = Inr kept" and "wf_ndarray words"
  shows "(\<forall>w \<in> set (rows kept). \<forall>c. absent_letter guess colors c \<longrightarrow>
            non_exact_count colors w c \<le> present_count guess colors c)
       \<and> (\<forall>w \<in> set (rows words).
            (\<exists>c. absent_letter guess colors c
                 \<and> present_count guess colors c < non_exact_count colors w c)
            \<longrightarrow> w \<notin> set (rows kept))"
proof -
  have len: "length colors = length guess" "length colors = ncols words"
    using assms(1) by (simp_all add: get_poss_words_Inr)
  have pos: "absent_letter guess colors c \<longrightarrow>
             non_exact_count colors w c \<le> present_count guess colors c"
    if "w \<in> set (rows words)" "consistent guess colors w" for w c
  proof -
    have "length w = length guess"
      using wf_row_length [OF assms(2) that(1)] len by simp
    with that(2) len(1) show ?thesis by (simp add: consistent_by_position)
  qed
  show ?thesis
    using pos by (fastforce simp: kept_row_consistent [OF assms(1)])
qed

theorem absent_upper_bound_witness:
  "get_poss_words (get_unicode ''speed'') (get_unicode ''bbyby'')
     (words_of [''abide'', ''crane'', ''steal'']) = Inr (words_of [''abide''])
   \<and> wf_ndarray (words_of [''abide'', ''crane'', ''steal''])
   \<and> absent_letter (get_unicode ''speed'') (get_unicode ''bbyby'') 101
   \<and> non_exact_count (get_unicode ''bbyby'') (get_unicode ''abide'') 101 \<le> 1
   \<and> get_unicode ''steal'' \<notin> set (rows (words_of [''abide'']))"
proof -
  have al: "absent_letter (get_unicode ''speed'') (get_unicode ''bbyby'') 101"
    by code_simp
  have pc: "present_count (get_unicode ''speed'') (get_unicode ''bbyby'') 101 = 1"
    by code_simp
  have mem: "get_unicode ''abide'' \<in> set (rows (words_of [''abide'']))"
    by (simp add: words_of_def)
  have mem2: "get_unicode ''steal'' \<in> set (rows (words_of [''abide'', ''crane'', ''steal'']))"
    by (simp add: words_of_def)
  have als: "absent_letter (get_unicode ''speed'') (get_unicode ''bbyby'') 115"
    by code_simp
  have ps: "present_count (get_unicode ''speed'') (get_unicode ''bbyby'') 115 = 0"
    by code_simp
  have ns: "non_exact_count (get_unicode ''bbyby'') (get_unicode ''steal'') 115 = 1"
    by code_simp
  note b = absent_upper_bound [OF speed_example speed_example_wf]
  from b mem al pc
  have "non_exact_count (get_unicode ''bbyby'') (get_unicode ''abide'') 101 \<le> 1"
    by metis
  moreover from b mem2 als ps ns
  have "get_unicode ''steal'' \<notin> set (rows (words_of [''abide'']))"
    by (metis zero_less_one)
  ultimately show ?thesis using speed_example speed_example_wf al by simp
qed

text \<open>
  C7. Filtering is idempotent: filtering the result of \<open>get_poss_words\<close> again by the same
  guess and colours returns it unchanged.
\<close>

theorem filter_idempotent:
  "get_poss_words guess colors words = Inr kept \<Longrightarrow> get_poss_words guess colors kept = Inr kept"
  by (auto simp: get_poss_words_Inr)

theorem filter_idempotent_witness:
  "get_poss_words (get_unicode ''speed'') (get_unicode ''bbyby'')
     (words_of [''abide'', ''crane'', ''steal'']) = Inr (words_of [''abide''])
   \<and> get_poss_words (get_unicode ''speed'') (get_unicode ''bbyby'') (words_of [''abide''])
       = Inr (words_of [''abide''])"
  using filter_idempotent [OF speed_example] speed_example by simp

lemma consistent_all_green:
  "consistent g (replicate (length g) G_UNICODE) g"
proof -
  have "present_count g (replicate (length g) G_UNICODE) c = 0" for c
    by (auto simp: present_count_def filter_empty_conv G_UNICODE_def Y_UNICODE_def)
  moreover have "\<not> absent_letter g (replicate (length g) G_UNICODE) c" for c
    by (auto simp: absent_letter_def list_ex_iff G_UNICODE_def B_UNICODE_def)
  ultimately show ?thesis by (simp add: consistent_by_position)
qed

text \<open>
  C8. Self-consistency: a word of the candidate set, used as the guess with all five
  positions EXACT, is kept by \<open>get_poss_words\<close>.
\<close>

theorem self_consistency:
  assumes "ncols words = 5" and "length g = 5" and "g \<in> set (rows words)"
  shows "\<exists>kept. get_poss_words g (replicate 5 G_UNICODE) words = Inr kept \<and> g \<in> set (rows kept)"
  using assms consistent_all_green [of g] by (simp add: get_poss_words_Inr)

theorem self_consistency_witness:
  "ncols (words_of [''abide'', ''crane'', ''steal'']) = 5
   \<and> length (get_unicode ''crane'') = 5
   \<and> get_unicode ''crane'' \<in> set (rows (words_of [''abide'', ''crane'', ''steal'']))
   \<and> (\<exists>kept. get_poss_words (get_unicode ''crane'') (replicate 5 G_UNICODE)
                (words_of [''abide'', ''crane'', ''steal'']) = Inr kept
              \<and> get_unicode ''crane'' \<in> set (rows kept))"
proof -
  have h1: "ncols (words_of [''abide'', ''crane'', ''steal'']) = 5"
    by (simp add: words_of_def)
  have h2: "length (get_unicode ''crane'') = 5"
    by (simp add: get_unicode_def)
  have h3: "get_unicode ''crane'' \<in> set (rows (words_of [''abide'', ''crane'', ''steal'']))"
    by (simp add: words_of_def)
  from self_consistency [OF h1 h2 h3] h1 h2 h3 show ?thesis by blast
qed

section \<open>What makes get\_poss\_words fail\<close>




section \<open>The score of a guess\<close>

lemma list_all2_replicate:
  "list_all2 P xs (replicate n y) \<longleftrightarrow> length xs = n \<and> (\<forall>x \<in> set xs. P x y)"
  by (induction n arbitrary: xs) (auto simp: list_all2_Cons2 length_Suc_conv)

lemma POSSIBLE_COLORS_set:
  "set POSSIBLE_COLORS = {f. length f = 5 \<and> set f \<subseteq> {G_UNICODE, Y_UNICODE, B_UNICODE}}"
proof -
  have "list_all2 (\<lambda>x ys. x \<in> set ys) f (replicate 5 [G_UNICODE, Y_UNICODE, B_UNICODE])
        \<longleftrightarrow> length f = 5 \<and> set f \<subseteq> {G_UNICODE, Y_UNICODE, B_UNICODE}" for f
    by (auto simp: list_all2_replicate)
  then show ?thesis
    by (simp add: POSSIBLE_COLORS_def product_lists_set)
qed

lemma POSSIBLE_COLORS_length: "f \<in> set POSSIBLE_COLORS \<Longrightarrow> length f = 5"
  by (simp add: POSSIBLE_COLORS_set)


lemma POSSIBLE_COLORS_243: "length POSSIBLE_COLORS = 243"
  by code_simp

lemma get_poss_words_rows_length:
  "get_poss_words guess colors words = Inr kept \<Longrightarrow>
   length (rows kept) = n_poss_words guess colors words"
  by (auto simp: get_poss_words_def n_poss_words_def split: if_splits)

lemma entropy_loop_sum:
  assumes "\<forall>f \<in> set fs. length f = ncols words \<and> length f = length guess"
    and "rows words \<noteq> []"
  shows "entropy_loop guess words fs acc
         = Inr (acc + (\<Sum>f\<leftarrow>fs. (of_nat (n_poss_words guess f words) / of_nat (length (rows words)))
                               * of_nat (n_poss_words guess f words)))"
  using assms(1)
proof (induction fs arbitrary: acc)
  case Nil
  then show ?case by simp
next
  case (Cons f fs)
  let ?t = "\<lambda>f. (of_nat (n_poss_words guess f words) / of_nat (length (rows words)))
                  * (of_nat (n_poss_words guess f words) :: rat)"
  from Cons.prems have "get_poss_words guess f words
             = Inr (words\<lparr>rows := get_poss_words_rows guess f (rows words)\<rparr>)"
    by (simp add: get_poss_words_def)
  then have "entropy_loop guess words (f # fs) acc = entropy_loop guess words fs (acc + ?t f)"
    using assms(2) by (simp add: n_poss_words_def Let_def)
  also have "\<dots> = Inr ((acc + ?t f) + (\<Sum>f\<leftarrow>fs. ?t f))"
    using Cons.prems by (intro Cons.IH) simp
  finally show ?case by (simp only: sum_list.Cons list.map add.assoc)
qed




text \<open>
  C10. For a guess of five letters and a word array of five columns,
  \<open>calc_guess_entropy\<close> returns a score, which is not negative, when the array has a row,
  and fails with ZeroDivisionError when it has none.
\<close>

theorem entropy_needs_nonempty_words:
  assumes "ncols words = 5" and "length guess = 5"
  shows "(rows words \<noteq> [] \<longrightarrow> (\<exists>s. calc_guess_entropy guess words = Inr s \<and> 0 \<le> s))
       \<and> (rows words = [] \<longrightarrow> calc_guess_entropy guess words = Inl ZeroDivisionError)"
proof (intro conjI impI)
  assume ne: "rows words \<noteq> []"
  have len: "\<forall>f \<in> set POSSIBLE_COLORS. length f = ncols words \<and> length f = length guess"
    using assms by (simp add: POSSIBLE_COLORS_length)
  let ?t = "\<lambda>f. (of_nat (n_poss_words guess f words) / of_nat (length (rows words)))
                  * (of_nat (n_poss_words guess f words) :: rat)"
  have "calc_guess_entropy guess words = Inr (\<Sum>f\<leftarrow>POSSIBLE_COLORS. ?t f)"
    unfolding calc_guess_entropy_def using entropy_loop_sum [OF len ne, of 0] by simp
  moreover have "0 \<le> (\<Sum>f\<leftarrow>POSSIBLE_COLORS. ?t f)"
    by (rule sum_list_nonneg) auto
  ultimately show "\<exists>s. calc_guess_entropy guess words = Inr s \<and> 0 \<le> s"
    by blast
next
  assume em: "rows words = []"
  obtain f fs where pc: "POSSIBLE_COLORS = f # fs"
    using POSSIBLE_COLORS_243 by (cases POSSIBLE_COLORS) auto
  have "f \<in> set POSSIBLE_COLORS" unfolding pc by simp
  then have "length f = 5" by (rule POSSIBLE_COLORS_length)
  with assms have "get_poss_words guess f words
             = Inr (words\<lparr>rows := get_poss_words_rows guess f (rows words)\<rparr>)"
    by (simp add: get_poss_words_def)
  with em show "calc_guess_entropy guess words = Inl ZeroDivisionError"
    by (simp add: calc_guess_entropy_def pc Let_def)
qed

theorem entropy_needs_nonempty_words_witness:
  "ncols (words_of [''abide'', ''crane'', ''steal'']) = 5
   \<and> ncols (words_of []) = 5
   \<and> length (get_unicode ''speed'') = 5
   \<and> rows (words_of [''abide'', ''crane'', ''steal'']) \<noteq> []
   \<and> (\<exists>s. calc_guess_entropy (get_unicode ''speed'') (words_of [''abide'', ''crane'', ''steal''])
            = Inr s \<and> 0 \<le> s)
   \<and> rows (words_of []) = []
   \<and> calc_guess_entropy (get_unicode ''speed'') (words_of []) = Inl ZeroDivisionError"
proof -
  have h1: "ncols (words_of [''abide'', ''crane'', ''steal'']) = 5"
    by (simp add: words_of_def)
  have h1': "ncols (words_of []) = 5"
    by (simp add: words_of_def)
  have h2: "length (get_unicode ''speed'') = 5"
    by (simp add: get_unicode_def)
  have h3: "rows (words_of [''abide'', ''crane'', ''steal'']) \<noteq> []"
    by (simp add: words_of_def)
  have h4: "rows (words_of []) = []"
    by (simp add: words_of_def)
  from entropy_needs_nonempty_words [OF h1 h2] entropy_needs_nonempty_words [OF h1' h2]
    h1 h1' h2 h3 h4
  show ?thesis by blast
qed

section \<open>The filter leaves its input alone\<close>

lemma index_rows_frame:
  assumes "heap_ok h" and "cells h p = Some w" and "index_rows step p h = (r, h')"
  shows "heap_ok h' \<and> cells h r = None \<and> cells h' r = Some (w\<lparr>rows := step (rows w)\<rparr>)
         \<and> (\<forall>q. cells h q \<noteq> None \<longrightarrow> cells h' q = cells h q)"
  using assms by (auto simp: index_rows_def new_array_def heap_ok_def)

text \<open>
  C9. \<open>get_poss_words\<close> does not change its input: after the call every array that was
  in the store, the caller's word array among them, is as it was, and the result is an array
  at an address that held nothing before the call, so it shares nothing with the input. Its
  content is what \<open>get_poss_words\<close> computes on the value of the input.
\<close>

theorem get_poss_words_frame:
  assumes "heap_ok h" and "cells h words_ref = Some words"
    and "get_poss_words_heap guess colors words_ref h = (res, h')"
  shows "(\<forall>q. cells h q \<noteq> None \<longrightarrow> cells h' q = cells h q)
       \<and> cells h' words_ref = Some words
       \<and> (case res of
            Inl e \<Rightarrow> get_poss_words guess colors words = Inl e \<and> h' = h
          | Inr r \<Rightarrow> r \<noteq> words_ref \<and> cells h r = None
                     \<and> (\<exists>kept. get_poss_words guess colors words = Inr kept
                                \<and> cells h' r = Some kept))"
proof (cases "length colors \<noteq> ncols words \<or> length colors \<noteq> length guess")
  case True
  with assms(2,3) have "res = Inl IndexError" and "h' = h"
    by (auto simp: get_poss_words_heap_def split: if_splits)
  moreover from True have "get_poss_words guess colors words = Inl IndexError"
    by (auto simp: get_poss_words_def)
  ultimately show ?thesis
    using assms(2) by simp
next
  case False
  obtain r1 h1 where s1: "index_rows (green_step guess colors) words_ref h = (r1, h1)"
    by (cases "index_rows (green_step guess colors) words_ref h")
  obtain r2 h2 where s2: "index_rows (not_at_index_step guess colors) r1 h1 = (r2, h2)"
    by (cases "index_rows (not_at_index_step guess colors) r1 h1")
  obtain r3 h3 where s3: "index_rows (yellow_step guess colors) r2 h2 = (r3, h3)"
    by (cases "index_rows (yellow_step guess colors) r2 h2")
  obtain r4 h4 where s4: "index_rows (black_step guess colors) r3 h3 = (r4, h4)"
    by (cases "index_rows (black_step guess colors) r3 h3")
  from False assms(2,3) s1 s2 s3 s4 have res: "res = Inr r4" "h' = h4"
    by (simp_all add: get_poss_words_heap_def)
  note f1 = index_rows_frame [OF assms(1) assms(2) s1]
  let ?w1 = "words\<lparr>rows := green_step guess colors (rows words)\<rparr>"
  from f1 have c1: "cells h1 r1 = Some ?w1" and ok1: "heap_ok h1" by simp_all
  note f2 = index_rows_frame [OF ok1 c1 s2]
  let ?w2 = "?w1\<lparr>rows := not_at_index_step guess colors (rows ?w1)\<rparr>"
  from f2 have c2: "cells h2 r2 = Some ?w2" and ok2: "heap_ok h2" by simp_all
  note f3 = index_rows_frame [OF ok2 c2 s3]
  let ?w3 = "?w2\<lparr>rows := yellow_step guess colors (rows ?w2)\<rparr>"
  from f3 have c3: "cells h3 r3 = Some ?w3" and ok3: "heap_ok h3" by simp_all
  note f4 = index_rows_frame [OF ok3 c3 s4]
  have keep: "cells h4 q = cells h q" if "cells h q \<noteq> None" for q
  proof -
    from that f1 have a: "cells h1 q = cells h q" by simp
    with that f2 have b: "cells h2 q = cells h q" by simp
    with that f3 have c: "cells h3 q = cells h q" by simp
    with that f4 show ?thesis by simp
  qed
  have fresh: "cells h r4 = None"
  proof (rule ccontr)
    assume "cells h r4 \<noteq> None"
    then have "cells h3 r4 \<noteq> None"
      using f1 f2 f3 by simp
    with f4 show False by simp
  qed
  have "get_poss_words guess colors words
        = Inr (words\<lparr>rows := get_poss_words_rows guess colors (rows words)\<rparr>)"
    using False by (simp add: get_poss_words_def)
  moreover have "cells h4 r4 = Some (words\<lparr>rows := get_poss_words_rows guess colors (rows words)\<rparr>)"
    using f4 by (simp add: get_poss_words_rows_def)
  moreover have "r4 \<noteq> words_ref"
    using fresh assms(2) by auto
  ultimately show ?thesis
    using keep fresh assms(2) res by simp
qed

theorem get_poss_words_frame_witness:
  "heap_ok (single_array_heap (words_of [''abide'', ''crane'', ''steal'']))
   \<and> cells (single_array_heap (words_of [''abide'', ''crane'', ''steal''])) 0
       = Some (words_of [''abide'', ''crane'', ''steal''])
   \<and> fst (get_poss_words_heap (get_unicode ''speed'') (get_unicode ''bbyby'') 0
            (single_array_heap (words_of [''abide'', ''crane'', ''steal''])))
       = Inr 4
   \<and> cells (snd (get_poss_words_heap (get_unicode ''speed'') (get_unicode ''bbyby'') 0
                   (single_array_heap (words_of [''abide'', ''crane'', ''steal''])))) 0
       = Some (words_of [''abide'', ''crane'', ''steal''])
   \<and> cells (snd (get_poss_words_heap (get_unicode ''speed'') (get_unicode ''bbyby'') 0
                   (single_array_heap (words_of [''abide'', ''crane'', ''steal''])))) 4
       = Some (words_of [''abide''])"
proof -
  let ?W = "words_of [''abide'', ''crane'', ''steal'']"
  let ?X = "get_poss_words_heap (get_unicode ''speed'') (get_unicode ''bbyby'') 0
              (single_array_heap ?W)"
  have ok: "heap_ok (single_array_heap ?W)"
    by (simp add: heap_ok_def single_array_heap_def)
  have c0: "cells (single_array_heap ?W) 0 = Some ?W"
    by (simp add: single_array_heap_def)
  have len: "length (get_unicode ''bbyby'') = ncols ?W"
    "length (get_unicode ''bbyby'') = length (get_unicode ''speed'')"
    by (simp_all add: get_unicode_def words_of_def)
  have r: "fst ?X = Inr 4"
    using len
    by (simp add: get_poss_words_heap_def index_rows_def new_array_def single_array_heap_def
        split_beta Let_def)
  have x: "?X = (Inr 4, snd ?X)"
    using r by (metis prod.collapse)
  from get_poss_words_frame [OF ok c0 x] speed_example
  have "cells (snd ?X) 0 = Some ?W" and "cells (snd ?X) 4 = Some (words_of [''abide''])"
    by auto
  with ok c0 r show ?thesis by simp
qed

section \<open>The ranking\<close>

lemma calc_guess_entropy_returns:
  assumes "rows words \<noteq> []" and "ncols words = 5" and "length guess = 5"
  shows "\<exists>s. calc_guess_entropy guess words = Inr s"
proof -
  have "\<forall>f \<in> set POSSIBLE_COLORS. length f = ncols words \<and> length f = length guess"
    using assms by (simp add: POSSIBLE_COLORS_length)
  from entropy_loop_sum [OF this assms(1), of 0] show ?thesis
    by (simp add: calc_guess_entropy_def)
qed

lemma collect_scores_returns:
  assumes "rows words \<noteq> []" and "ncols words = 5" and "\<forall>g \<in> set gs. length g = 5"
  shows "\<exists>ss. collect_scores words gs = Inr ss \<and> length ss = length gs
              \<and> (\<forall>i < length gs. calc_guess_entropy (gs ! i) words = Inr (ss ! i))"
  using assms(3)
proof (induction gs)
  case Nil
  then show ?case by simp
next
  case (Cons g gs)
  then obtain ss where ss: "collect_scores words gs = Inr ss" "length ss = length gs"
    "\<forall>i < length gs. calc_guess_entropy (gs ! i) words = Inr (ss ! i)"
    by auto
  from Cons.prems obtain s where s: "calc_guess_entropy g words = Inr s"
    using calc_guess_entropy_returns [OF assms(1,2), of g] by auto
  have "\<forall>i < length (g # gs). calc_guess_entropy ((g # gs) ! i) words = Inr ((s # ss) ! i)"
    using s ss(3) by (auto simp: nth_Cons split: nat.splits)
  with s ss(1,2) show ?case by simp
qed

lemma take_indices_permutation:
  assumes "mset inds = mset [0..<length xs]"
  shows "take_indices inds xs = Inr (map (\<lambda>i. xs ! i) inds)"
    and "mset (map (\<lambda>i. xs ! i) inds) = mset xs"
proof -
  have "set inds = {0..<length xs}"
    using assms by (metis set_mset_mset set_upt)
  then show "take_indices inds xs = Inr (map (\<lambda>i. xs ! i) inds)"
    by (auto simp: take_indices_def list_all_iff)
  have "mset (map (\<lambda>i. xs ! i) inds) = image_mset (\<lambda>i. xs ! i) (mset inds)"
    by simp
  also have "\<dots> = mset (map (\<lambda>i. xs ! i) [0..<length xs])"
    by (simp add: assms)
  also have "\<dots> = mset xs"
    by (simp add: map_nth)
  finally show "mset (map (\<lambda>i. xs ! i) inds) = mset xs" .
qed

text \<open>
  C5, amended. For every word array of five columns and every argsort that returns the
  indices that sort its argument, \<open>rank_words\<close> returns one entry per word: the returned
  rows are the input rows in another order, each paired with the score
  \<open>calc_guess_entropy\<close> gives it, and the scores ascend. Among equal scores the order is the
  one the argsort returns: \<open>rank_words\<close> hands it the scores only.
\<close>

theorem rank_words_sorted_permutation:
  assumes "argsort_ok argsort" and "ncols words = 5" and "wf_ndarray words"
  shows "\<exists>ws ps. rank_words argsort words = Inr (ws, ps)
           \<and> ncols ws = ncols words
           \<and> mset (rows ws) = mset (rows words)
           \<and> length ps = length (rows ws)
           \<and> sorted ps
           \<and> (\<forall>i < length ps. calc_guess_entropy (rows ws ! i) words = Inr (ps ! i))"
proof -
  have "\<exists>ss. collect_scores words (rows words) = Inr ss \<and> length ss = length (rows words)
              \<and> (\<forall>i < length (rows words).
                    calc_guess_entropy (rows words ! i) words = Inr (ss ! i))"
  proof (cases "rows words = []")
    case True
    then show ?thesis by simp
  next
    case False
    have "\<forall>g \<in> set (rows words). length g = 5"
      using assms(2,3) by (auto dest: wf_row_length)
    from collect_scores_returns [OF False assms(2) this] show ?thesis .
  qed
  then obtain ss where ss: "collect_scores words (rows words) = Inr ss"
    "length ss = length (rows words)"
    "\<forall>i < length (rows words). calc_guess_entropy (rows words ! i) words = Inr (ss ! i)"
    by blast
  define inds where "inds = argsort ss"
  have perm: "mset inds = mset [0..<length ss]" and srt: "sorted (map (\<lambda>i. ss ! i) inds)"
    using assms(1) by (simp_all add: argsort_ok_def inds_def)
  have perm': "mset inds = mset [0..<length (rows words)]"
    using perm ss(2) by simp
  have in_range: "\<forall>i \<in> set inds. i < length (rows words)"
    using perm' by (metis atLeastLessThan_iff set_mset_mset set_upt)
  let ?ws = "words\<lparr>rows := map (\<lambda>i. rows words ! i) inds\<rparr>"
  let ?ps = "map (\<lambda>i. ss ! i) inds"
  have "rank_words argsort words = Inr (?ws, ?ps)"
    using ss(1) take_indices_permutation(1) [OF perm] take_indices_permutation(1) [OF perm']
    by (simp add: rank_words_def inds_def [symmetric])
  moreover have "mset (rows ?ws) = mset (rows words)"
    using take_indices_permutation(2) [OF perm'] by simp
  moreover have "\<forall>i < length ?ps. calc_guess_entropy (rows ?ws ! i) words = Inr (?ps ! i)"
    using ss(3) in_range by simp
  ultimately show ?thesis
    using srt by (intro exI [of _ ?ws] exI [of _ ?ps]) simp
qed

lemma stable_argsort_ok: "argsort_ok stable_argsort"
  by (simp add: argsort_ok_def stable_argsort_def)

theorem rank_words_sorted_permutation_witness:
  "argsort_ok stable_argsort
   \<and> ncols (words_of [''slate'', ''crane'', ''speed'', ''abide'']) = 5
   \<and> wf_ndarray (words_of [''slate'', ''crane'', ''speed'', ''abide''])
   \<and> (\<exists>ws ps. rank_words stable_argsort (words_of [''slate'', ''crane'', ''speed'', ''abide''])
                  = Inr (ws, ps)
           \<and> ncols ws = ncols (words_of [''slate'', ''crane'', ''speed'', ''abide''])
           \<and> mset (rows ws) = mset (rows (words_of [''slate'', ''crane'', ''speed'', ''abide'']))
           \<and> length ps = length (rows ws)
           \<and> sorted ps
           \<and> (\<forall>i < length ps.
                 calc_guess_entropy (rows ws ! i) (words_of [''slate'', ''crane'', ''speed'', ''abide''])
                 = Inr (ps ! i)))"
proof -
  have h2: "ncols (words_of [''slate'', ''crane'', ''speed'', ''abide'']) = 5"
    by (simp add: words_of_def)
  have h3: "wf_ndarray (words_of [''slate'', ''crane'', ''speed'', ''abide''])"
    by code_simp
  from rank_words_sorted_permutation [OF stable_argsort_ok h2 h3] stable_argsort_ok h2 h3
  show ?thesis by blast
qed

lemma tie_scores:
  "collect_scores (words_of [''slate'', ''crane'']) (rows (words_of [''slate'', ''crane'']))
     = Inr [1, 1]"
  "collect_scores (words_of [''crane'', ''slate'']) (rows (words_of [''crane'', ''slate'']))
     = Inr [1, 1]"
  by code_simp+

lemma two_indices:
  assumes "list_all (\<lambda>i. i < Suc (Suc 0)) p" and "length p = Suc (Suc 0)"
  shows "p = [0, 0] \<or> p = [0, 1] \<or> p = [1, 0] \<or> p = [1, Suc 0]"
proof -
  from assms(2) obtain a b where p: "p = [a, b]"
    by (auto simp: length_Suc_conv)
  with assms(1) have "a < 2" "b < 2" by simp_all
  then have "(a = 0 \<or> a = 1) \<and> (b = 0 \<or> b = 1)" by auto
  with p show ?thesis by auto
qed

text \<open>
  C5, as claimed, does not hold: equal scores are not put in the lexical order of their
  words. \<open>slate\<close> and \<open>crane\<close> score the same, and the order of the result depends only on
  the scores, so whatever the argsort does on two equal scores, one of the inputs
  \<open>[slate, crane]\<close> and \<open>[crane, slate]\<close> comes out with \<open>slate\<close> before \<open>crane\<close>.
\<close>

theorem lexical_tie_break_counterexample:
  "\<not> (\<exists>argsort.
        ranked_lexically (words_of [''slate'', ''crane''])
          (rank_words argsort (words_of [''slate'', ''crane'']))
      \<and> ranked_lexically (words_of [''crane'', ''slate''])
          (rank_words argsort (words_of [''crane'', ''slate''])))"
proof
  assume "\<exists>argsort.
        ranked_lexically (words_of [''slate'', ''crane''])
          (rank_words argsort (words_of [''slate'', ''crane'']))
      \<and> ranked_lexically (words_of [''crane'', ''slate''])
          (rank_words argsort (words_of [''crane'', ''slate'']))"
  then obtain argsort where
    a: "ranked_lexically (words_of [''slate'', ''crane''])
          (rank_words argsort (words_of [''slate'', ''crane'']))" and
    b: "ranked_lexically (words_of [''crane'', ''slate''])
          (rank_words argsort (words_of [''crane'', ''slate'']))"
    by blast
  define p where "p = argsort [1, 1]"
  have rows1: "rows (words_of [''slate'', ''crane''])
               = [[115, 108, 97, 116, 101], [99, 114, 97, 110, 101]]"
    by (simp add: words_of_def get_unicode_def)
  have rows2: "rows (words_of [''crane'', ''slate''])
               = [[99, 114, 97, 110, 101], [115, 108, 97, 116, 101]]"
    by (simp add: words_of_def get_unicode_def)
  have rk1: "rank_words argsort (words_of [''slate'', ''crane''])
             = (case take_indices p (rows (words_of [''slate'', ''crane''])) of
                  Inl e \<Rightarrow> Inl e
                | Inr ws \<Rightarrow>
                    (case take_indices p [1, 1] of
                       Inl e \<Rightarrow> Inl e
                     | Inr ps \<Rightarrow> Inr ((words_of [''slate'', ''crane''])\<lparr>rows := ws\<rparr>, ps)))"
    unfolding p_def by (simp add: rank_words_def tie_scores(1) Let_def)
  have rk2: "rank_words argsort (words_of [''crane'', ''slate''])
             = (case take_indices p (rows (words_of [''crane'', ''slate''])) of
                  Inl e \<Rightarrow> Inl e
                | Inr ws \<Rightarrow>
                    (case take_indices p [1, 1] of
                       Inl e \<Rightarrow> Inl e
                     | Inr ps \<Rightarrow> Inr ((words_of [''crane'', ''slate''])\<lparr>rows := ws\<rparr>, ps)))"
    unfolding p_def by (simp add: rank_words_def tie_scores(2) Let_def)
  have a': "list_all (\<lambda>i. i < Suc (Suc 0)) p
            \<and> mset (map (\<lambda>i. [[115, 108, 97, 116, 101], [99, 114, 97, 110, 101 :: int]] ! i) p)
                = mset [[115, 108, 97, 116, 101], [99, 114, 97, 110, 101]]"
  proof (cases "list_all (\<lambda>i. i < Suc (Suc 0)) p")
    case True
    with a show ?thesis
      unfolding rk1 by (simp add: ranked_lexically_def take_indices_def rows1)
  next
    case False
    with a show ?thesis
      unfolding rk1 by (simp add: ranked_lexically_def take_indices_def rows1)
  qed
  then have in_range: "list_all (\<lambda>i. i < Suc (Suc 0)) p" ..
  from a' have "size (mset (map (\<lambda>i. [[115, 108, 97, 116, 101], [99, 114, 97, 110, 101 :: int]] ! i) p))
                = size (mset [[115, 108, 97, 116, 101], [99, 114, 97, 110, 101 :: int]])"
    by simp
  then have "length p = Suc (Suc 0)"
    by simp
  from two_indices [OF in_range this]
  show False
  proof (elim disjE)
    assume "p = [0, 0]"
    with a show False
      unfolding rk1 by (simp add: ranked_lexically_def take_indices_def rows1)
  next
    assume "p = [0, 1]"
    with a show False
      unfolding rk1 by (simp add: ranked_lexically_def take_indices_def rows1)
  next
    assume "p = [1, 0]"
    with b show False
      unfolding rk2 by (simp add: ranked_lexically_def take_indices_def rows2)
  next
    assume "p = [1, Suc 0]"
    with a show False
      unfolding rk1 by (simp add: ranked_lexically_def take_indices_def rows1)
  qed
qed

section \<open>Every candidate is counted\<close>

lemma color_constants_distinct [simp]:
  "G_UNICODE \<noteq> Y_UNICODE" "Y_UNICODE \<noteq> G_UNICODE"
  "G_UNICODE \<noteq> B_UNICODE" "B_UNICODE \<noteq> G_UNICODE"
  "Y_UNICODE \<noteq> B_UNICODE" "B_UNICODE \<noteq> Y_UNICODE"
  by (simp_all add: G_UNICODE_def Y_UNICODE_def B_UNICODE_def)






lemma eq_count_Cons [simp]:
  "eq_count (x # xs) u = (if x = u then Suc (eq_count xs u) else eq_count xs u)"
  by (simp add: eq_count_def)

lemma eq_count_Nil [simp]: "eq_count [] u = 0"
  by (simp add: eq_count_def)

















end
